theory Spec2Isabelle
  imports Complex_Main "HOL-Library.Word" "HOL-Library.Multiset"
begin

unbundle bit_operations_syntax

section \<open>Go values used by the driver\<close>

text \<open>
  The file \<^verbatim>\<open>libsql/internal/http/driver.go\<close> implements the \<^verbatim>\<open>database/sql/driver\<close>
  interfaces over one RPC, \<^verbatim>\<open>callSqld\<close>. This theory embeds its functions one by one.
  Go's \<^verbatim>\<open>int64\<close> is a 64-bit word. A \<^verbatim>\<open>float64\<close> is kept as its IEEE 754 binary64 bit
  pattern (what \<^verbatim>\<open>math.Float64bits\<close> returns): bit 63 is the sign, bits 62..52 the biased
  exponent, bits 51..0 the fraction.
\<close>

type_synonym int64 = "64 word"
type_synonym float64 = "64 word"

definition f64_sign :: "float64 \<Rightarrow> bool" where
  "f64_sign x = bit x 63"

definition f64_exp :: "float64 \<Rightarrow> int" where
  "f64_exp x = uint (drop_bit 52 x AND 0x7FF)"

definition f64_frac :: "float64 \<Rightarrow> int" where
  "f64_frac x = uint (x AND 0xFFFFFFFFFFFFF)"

definition IsNaN :: "float64 \<Rightarrow> bool" where
  "IsNaN x = (f64_exp x = 2047 \<and> f64_frac x \<noteq> 0)"

definition IsInf :: "float64 \<Rightarrow> bool" where
  "IsInf x = (f64_exp x = 2047 \<and> f64_frac x = 0)"

definition NaN :: float64 where
  "NaN = 0x7FF8000000000001"

text \<open>
  Every finite binary64 number is an integer multiple of \<open>2 ^ -1074\<close>, its smallest
  subnormal: its magnitude is \<open>f64_mant x * 2 ^ f64_shift x\<close> such units, where
  \<open>f64_mant\<close> is the significand (with its hidden bit, unless the exponent field is 0)
  and \<open>f64_shift\<close> is the exponent field less one (0 for subnormals).
\<close>

definition f64_mant :: "float64 \<Rightarrow> int" where
  "f64_mant x = (if f64_exp x = 0 then f64_frac x else 2 ^ 52 + f64_frac x)"

definition f64_shift :: "float64 \<Rightarrow> nat" where
  "f64_shift x = (if f64_exp x = 0 then 0 else nat (f64_exp x - 1))"

function bits_Len :: "int \<Rightarrow> nat" where
  "bits_Len n = (if n \<le> 0 then 0 else Suc (bits_Len (n div 2)))"
  by pat_completeness auto
termination
  by (relation "measure nat") auto

declare bits_Len.simps [simp del]

text \<open>
  \<open>f64_make s m t\<close> is the float of sign \<open>s\<close> and magnitude \<open>m * 2 ^ t\<close> units, for a
  magnitude that is a binary64 number (no rounding takes place: the caller below only
  produces such magnitudes). With \<open>b\<close> the number of bits of the magnitude (0 for the
  magnitude 0), the result is subnormal when \<open>b \<le> 52\<close>; otherwise the leading bit is
  moved to position 52 and dropped, and the exponent field is \<open>b - 52\<close>. The three
  fields are put together by addition, the sign at \<open>2 ^ 63\<close> and the exponent field at
  \<open>2 ^ 52\<close>.
\<close>

definition f64_make :: "bool \<Rightarrow> int \<Rightarrow> nat \<Rightarrow> float64" where
  "f64_make s m t =
     (let sign_bit = (if s then 2 ^ 63 else 0);
          l = bits_Len m;
          b = (if m = 0 then 0 else l + t);
          e = (if b \<le> 52 then 0 else int b - 52);
          f = (if b \<le> 52 then m * 2 ^ t
               else (if 53 \<le> l then m div 2 ^ (l - 53) else m * 2 ^ (53 - l)) - 2 ^ 52)
      in word_of_int (sign_bit + e * 2 ^ 52 + f))"

text \<open>
  \<^verbatim>\<open>math.Mod(x, y)\<close>, the floating-point remainder of \<open>x / y\<close>, from the documentation
  of Go's \<^verbatim>\<open>math\<close> package: the magnitude of the result is less than \<open>y\<close> and its sign
  agrees with that of \<open>x\<close>; \<^verbatim>\<open>Mod(\<plusminus>Inf, y) = NaN\<close>, \<^verbatim>\<open>Mod(NaN, y) = NaN\<close>,
  \<^verbatim>\<open>Mod(x, 0) = NaN\<close>, \<^verbatim>\<open>Mod(x, \<plusminus>Inf) = x\<close>, \<^verbatim>\<open>Mod(x, NaN) = NaN\<close>. The remainder of two
  binary64 numbers is a binary64 number, so the operation is exact: both magnitudes
  are written over the smaller of the two shifts and the remainder is taken there.
\<close>

definition math_Mod :: "float64 \<Rightarrow> float64 \<Rightarrow> float64" where
  "math_Mod x y =
     (if f64_mant y = 0 \<or> IsInf x \<or> IsNaN x \<or> IsNaN y then NaN
      else if IsInf y then x
      else let t = min (f64_shift x) (f64_shift y)
           in f64_make (f64_sign x)
                ((f64_mant x * 2 ^ (f64_shift x - t)) mod (f64_mant y * 2 ^ (f64_shift y - t))) t)"

text \<open>
  The comparisons \<^verbatim>\<open>>=\<close> and \<^verbatim>\<open><\<close> of two \<^verbatim>\<open>float64\<close>: false when either side is a NaN.
  Otherwise binary64 numbers are ordered as their bit patterns read as sign and
  magnitude (exponent field, then fraction), \<open>-0\<close> and \<open>+0\<close> being equal.
\<close>

definition f64_ord :: "float64 \<Rightarrow> int" where
  "f64_ord x =
     (if f64_sign x then - uint (x AND 0x7FFFFFFFFFFFFFFF) else uint (x AND 0x7FFFFFFFFFFFFFFF))"

definition f64_ge :: "float64 \<Rightarrow> float64 \<Rightarrow> bool" where
  "f64_ge x y = (\<not> IsNaN x \<and> \<not> IsNaN y \<and> f64_ord y \<le> f64_ord x)"

definition f64_lt :: "float64 \<Rightarrow> float64 \<Rightarrow> bool" where
  "f64_lt x y = (\<not> IsNaN x \<and> \<not> IsNaN y \<and> f64_ord x < f64_ord y)"

text \<open>The untyped constants \<^verbatim>\<open>0\<close> and \<^verbatim>\<open>1\<close> of the source, converted to \<^verbatim>\<open>float64\<close>.\<close>

definition f64_zero :: float64 where
  "f64_zero = 0"

definition f64_one :: float64 where
  "f64_one = 0x3FF0000000000000"

text \<open>
  The conversion \<^verbatim>\<open>int64(v)\<close> of a \<^verbatim>\<open>float64\<close> discards the fraction (truncation towards
  zero). When the truncated value is not an \<^verbatim>\<open>int64\<close>, or \<open>v\<close> is an infinity or a NaN,
  the Go specification leaves the result to the implementation: the parameter \<open>oor\<close>
  stands for what the platform returns there.
\<close>

definition f64_trunc :: "float64 \<Rightarrow> int" where
  "f64_trunc x =
     (let n = (if 1074 \<le> f64_shift x then f64_mant x * 2 ^ (f64_shift x - 1074)
               else f64_mant x div 2 ^ (1074 - f64_shift x))
      in if f64_sign x then - n else n)"

definition int64_of_float64 :: "(float64 \<Rightarrow> int64) \<Rightarrow> float64 \<Rightarrow> int64" where
  "int64_of_float64 oor x =
     (if \<not> IsNaN x \<and> \<not> IsInf x \<and> - (2 ^ 63) \<le> f64_trunc x \<and> f64_trunc x < 2 ^ 63
      then word_of_int (f64_trunc x) else oor x)"

text \<open>
  A finite float is a whole number when its magnitude, in units of \<open>2 ^ -1074\<close>, is a
  multiple of \<open>2 ^ 1074\<close>. The source does not compute this; the properties of the type
  switch are stated with it.
\<close>

definition f64_whole :: "float64 \<Rightarrow> bool" where
  "f64_whole x \<longleftrightarrow> (f64_mant x * 2 ^ f64_shift x) mod 2 ^ 1074 = 0"

text \<open>
  A \<^verbatim>\<open>driver.Value\<close> is Go's \<^verbatim>\<open>any\<close>: a value together with its dynamic type. The
  constructors are \<^verbatim>\<open>nil\<close> and the dynamic types of the cell values of the spec (\<^verbatim>\<open>int64\<close>,
  \<^verbatim>\<open>float64\<close>, \<^verbatim>\<open>bool\<close>, \<^verbatim>\<open>string\<close>, \<^verbatim>\<open>[]byte\<close>); \<open>VOther\<close> carries a value of any other
  dynamic type, which the type switch of \<^verbatim>\<open>Next\<close> sends to its \<^verbatim>\<open>default\<close> case.
\<close>

datatype 'x Value =
    VNil
  | VInt64 int64
  | VFloat64 float64
  | VBool bool
  | VString string
  | VBytes "8 word list"
  | VOther 'x

datatype error = io_EOF | fmt_Errorf string

datatype panic = index_out_of_range | nil_dereference

section \<open>The result of an exec\<close>

text \<open>The field \<^verbatim>\<open>id\<close> of the source is \<open>id'\<close> here, \<open>id\<close> being HOL's identity function.\<close>

record result =
  id' :: int64
  changes :: int64

definition result_LastInsertId :: "result \<Rightarrow> int64 \<times> error option" where
  "result_LastInsertId r = (id' r, None)"

definition result_RowsAffected :: "result \<Rightarrow> int64 \<times> error option" where
  "result_RowsAffected r = (changes r, None)"

section \<open>The row cursor\<close>

text \<open>
  Modelled from the spec: the declaration of the struct \<^verbatim>\<open>resultSet\<close>, which is in a file
  of the package that is not among the sources. The spec gives a result set an ordered
  list of column names and an ordered list of rows, each row an ordered list of cell
  values; the driver reads them as the fields \<^verbatim>\<open>Columns\<close>, returned as a \<^verbatim>\<open>[]string\<close>, and
  \<^verbatim>\<open>Rows\<close>, indexed twice to give a value that is assigned to a \<^verbatim>\<open>driver.Value\<close>. Nothing
  in the driver makes the rows as long as the list of columns, so the record does not
  either.
\<close>

record 'x resultSet =
  Columns :: "string list"
  Rows :: "'x Value list list"

text \<open>
  A \<^verbatim>\<open>rows\<close> holds a pointer to the result set, which may be \<^verbatim>\<open>nil\<close> (\<open>None\<close>), and a Go
  \<^verbatim>\<open>int\<close> index. No function of the driver writes through the pointer, and the result
  set is reached through the cursor only, so that a destination slice handed to
  \<^verbatim>\<open>Next\<close> by a caller shares no memory with its rows: the result set is kept in the
  cursor as a value.
\<close>

record 'x rows =
  result :: "'x resultSet option"
  currentRowIdx :: int

definition rows_Columns :: "'x rows \<Rightarrow> panic + string list" where
  "rows_Columns r = (case result r of None \<Rightarrow> Inl nil_dereference | Some rs \<Rightarrow> Inr (Columns rs))"

definition rows_Close :: "'x rows \<Rightarrow> error option" where
  "rows_Close r = None"

text \<open>
  The type switch of \<^verbatim>\<open>Next\<close>: the value stored in \<^verbatim>\<open>dest[idx]\<close> by the case that matches
  the dynamic type of \<open>value\<close>.
\<close>

definition Next_switch :: "(float64 \<Rightarrow> int64) \<Rightarrow> 'x Value \<Rightarrow> 'x Value" where
  "Next_switch oor value =
     (case value of
        VInt64 v \<Rightarrow> VInt64 v
      | VFloat64 v \<Rightarrow>
          (if f64_ge (math_Mod v f64_one) f64_zero then VInt64 (int64_of_float64 oor v)
           else VFloat64 v)
      | _ \<Rightarrow> value)"

text \<open>
  The \<^verbatim>\<open>for\<close> loop of \<^verbatim>\<open>Next\<close> over the cells of the current row, from \<open>idx\<close> on. Reading
  \<^verbatim>\<open>row[idx]\<close> and writing \<^verbatim>\<open>dest[idx]\<close> panic when the index is not below the length.
\<close>

function Next_loop ::
  "(float64 \<Rightarrow> int64) \<Rightarrow> 'x Value list \<Rightarrow> nat \<Rightarrow> nat \<Rightarrow> 'x Value list \<Rightarrow> panic + 'x Value list" where
  "Next_loop oor row idx count' dest =
     (if idx < count' then
        (if length row \<le> idx then Inl index_out_of_range
         else let value = row ! idx in
           if length dest \<le> idx then Inl index_out_of_range
           else Next_loop oor row (Suc idx) count' ((dest[idx := value])[idx := Next_switch oor value]))
      else Inr dest)"
  by pat_completeness auto
termination
  by (relation "measure (\<lambda>(oor, row, idx, count', dest). count' - idx)") auto

declare Next_loop.simps [simp del]

text \<open>
  \<^verbatim>\<open>Next\<close> returns its \<^verbatim>\<open>error\<close> together with the cursor and the destination slice as it
  leaves them, or panics: on a \<^verbatim>\<open>nil\<close> result set, on an index that is not a row, or in
  the loop. A panic leaves the call before the index is incremented; of a call that
  panics the model keeps the kind of panic only. The index is only incremented below
  \<^verbatim>\<open>len(r.result.Rows)\<close>, so the increment cannot overflow.
\<close>

definition rows_Next ::
  "(float64 \<Rightarrow> int64) \<Rightarrow> 'x rows \<Rightarrow> 'x Value list \<Rightarrow> panic + (error option \<times> 'x rows \<times> 'x Value list)" where
  "rows_Next oor r dest =
     (case result r of
        None \<Rightarrow> Inl nil_dereference
      | Some rs \<Rightarrow>
          if currentRowIdx r = int (length (Rows rs)) then Inr (Some io_EOF, r, dest)
          else if currentRowIdx r < 0 \<or> int (length (Rows rs)) \<le> currentRowIdx r
            then Inl index_out_of_range
          else
            let row = Rows rs ! nat (currentRowIdx r);
                count' = length row
            in (case Next_loop oor row 0 count' dest of
                  Inl p \<Rightarrow> Inl p
                | Inr dest' \<Rightarrow> Inr (None, r\<lparr>currentRowIdx := currentRowIdx r + 1\<rparr>, dest')))"

text \<open>
  A caller that calls \<^verbatim>\<open>Next\<close> once with each destination slice of a list, in order, and
  collects the errors returned. It stops at the first panic.
\<close>

fun Next_calls ::
  "(float64 \<Rightarrow> int64) \<Rightarrow> 'x rows \<Rightarrow> 'x Value list list \<Rightarrow> panic + (error option list \<times> 'x rows)" where
  "Next_calls oor r [] = Inr ([], r)"
| "Next_calls oor r (d # ds) =
     (case rows_Next oor r d of
        Inl p \<Rightarrow> Inl p
      | Inr (e, r', d') \<Rightarrow>
          (case Next_calls oor r' ds of
             Inl p \<Rightarrow> Inl p
           | Inr (es, r'') \<Rightarrow> Inr (e # es, r'')))"

section \<open>Parameter normalisation\<close>

text \<open>
  \<^verbatim>\<open>driver.NamedValue\<close> is the struct of \<^verbatim>\<open>database/sql/driver\<close> with the fields \<^verbatim>\<open>Name\<close>,
  \<^verbatim>\<open>Ordinal\<close> and \<^verbatim>\<open>Value\<close>.
\<close>

record 'x NamedValue =
  Name :: string
  Ordinal :: int
  Value :: "'x Value"

text \<open>
  Modelled from the spec: the declaration of the struct \<^verbatim>\<open>params\<close>, which is in a file of
  the package that is not among the sources. The spec gives a parameter set an ordered
  list of values and an optional ordered list of names; the composite literals of
  \<^verbatim>\<open>convertArgs\<close> name the fields \<^verbatim>\<open>Names\<close> and \<^verbatim>\<open>Values\<close> and fill them with a \<^verbatim>\<open>[]string\<close>
  and a \<^verbatim>\<open>[]any\<close>. A slice variable declared with \<^verbatim>\<open>var\<close> is \<^verbatim>\<open>nil\<close> until the first
  \<^verbatim>\<open>append\<close>: a slice that can be \<^verbatim>\<open>nil\<close> is a list option, \<open>None\<close> for \<^verbatim>\<open>nil\<close>.
\<close>

record 'x params =
  Names :: "string list option"
  Values :: "'x Value list option"

definition go_append :: "'a list option \<Rightarrow> 'a \<Rightarrow> 'a list option" where
  "go_append s x = Some (case s of None \<Rightarrow> [x] | Some xs \<Rightarrow> xs @ [x])"

definition slice_elems :: "'a list option \<Rightarrow> 'a list" where
  "slice_elems s = (case s of None \<Rightarrow> [] | Some xs \<Rightarrow> xs)"

text \<open>
  \<^verbatim>\<open>sort.Slice\<close> belongs to Go's standard library, and its algorithm is not fixed (the
  sort is documented as not stable). \<^verbatim>\<open>convertArgs\<close> takes it as the parameter \<open>srt\<close>;
  what the library promises of it is \<open>sort_Slice_contract\<close>: the outcome is a
  rearrangement of the slice in which no element is less than an earlier one, by the
  function \<open>less'\<close> it is given.
\<close>

definition sort_Slice_contract ::
  "(('a \<Rightarrow> 'a \<Rightarrow> bool) \<Rightarrow> 'a list \<Rightarrow> 'a list) \<Rightarrow> ('a \<Rightarrow> 'a \<Rightarrow> bool) \<Rightarrow> bool" where
  "sort_Slice_contract srt less' =
     (\<forall>xs. mset (srt less' xs) = mset xs \<and> sorted_wrt (\<lambda>a b. \<not> less' b a) (srt less' xs))"

text \<open>
  One instance of it, for the examples: an insertion sort, the algorithm that Go's
  \<^verbatim>\<open>sort\<close> package runs on short slices. Each element in turn is put into the sorted
  prefix, in front of the first element it is less than.
\<close>

fun insert_less :: "('a \<Rightarrow> 'a \<Rightarrow> bool) \<Rightarrow> 'a \<Rightarrow> 'a list \<Rightarrow> 'a list" where
  "insert_less less' x [] = [x]"
| "insert_less less' x (y # ys) = (if less' x y then x # y # ys else y # insert_less less' x ys)"

definition insertion_sort :: "('a \<Rightarrow> 'a \<Rightarrow> bool) \<Rightarrow> 'a list \<Rightarrow> 'a list" where
  "insertion_sort less' xs = foldl (\<lambda>sorted_prefix x. insert_less less' x sorted_prefix) [] xs"

text \<open>
  The second loop of \<^verbatim>\<open>convertArgs\<close>, over the sorted arguments. The first loop collects
  a pointer to each argument in order, so \<open>sortedArgs\<close> starts as the arguments
  themselves; sorting the pointers leaves \<open>args\<close> as it was.
\<close>

fun convertArgs_loop ::
  "'x NamedValue list \<Rightarrow> string list option \<Rightarrow> 'x Value list option
     \<Rightarrow> string list option \<times> 'x Value list option" where
  "convertArgs_loop [] names values = (names, values)"
| "convertArgs_loop (a # sortedArgs) names values =
     convertArgs_loop sortedArgs
       (if length (Name a) > 0 then go_append names (Name a) else names)
       (go_append values (Value a))"

definition convertArgs ::
  "(('x NamedValue \<Rightarrow> 'x NamedValue \<Rightarrow> bool) \<Rightarrow> 'x NamedValue list \<Rightarrow> 'x NamedValue list)
     \<Rightarrow> 'x NamedValue list \<Rightarrow> 'x params" where
  "convertArgs srt args =
     (if length args = 0 then \<lparr>Names = None, Values = None\<rparr>
      else
        let sortedArgs = srt (\<lambda>a b. Ordinal a < Ordinal b) args;
            (names, values) = convertArgs_loop sortedArgs None None
        in \<lparr>Names = names, Values = values\<rparr>)"

section \<open>The connection\<close>

text \<open>
  \<^verbatim>\<open>callSqld\<close>, the one RPC, is in another file of the package: it is the parameter
  \<open>callSqld\<close> of the functions that call it. It receives the context, the URL, the
  token, the query and the parameters, acts on the world outside the process (of type
  \<open>'w\<close>: the network and the remote database) and returns a result-set pointer and an
  error. Every function of the connection takes the world and returns it, so that
  what a call does to it is part of its result.
\<close>

type_synonym ('c, 'x, 'e, 'w) rpc =
  "'c \<Rightarrow> string \<Rightarrow> string \<Rightarrow> string \<Rightarrow> 'x params \<Rightarrow> 'w \<Rightarrow> ('x resultSet option \<times> 'e option) \<times> 'w"

record conn =
  url :: string
  jwt :: string

definition Connect :: "string \<Rightarrow> string \<Rightarrow> conn" where
  "Connect u j = \<lparr>url = u, jwt = j\<rparr>"

text \<open>
  \<^verbatim>\<open>driver.Stmt\<close> and \<^verbatim>\<open>driver.Tx\<close> are interfaces that this driver never implements: the
  only value of these types it returns is \<^verbatim>\<open>nil\<close>.
\<close>

typedecl Stmt
typedecl Tx

definition conn_Prepare :: "conn \<Rightarrow> string \<Rightarrow> 'w \<Rightarrow> (Stmt option \<times> error option) \<times> 'w" where
  "conn_Prepare c query w = ((None, Some (fmt_Errorf ''prepare method not implemented'')), w)"

definition conn_Close :: "conn \<Rightarrow> 'w \<Rightarrow> error option \<times> 'w" where
  "conn_Close c w = (None, w)"

definition conn_Begin :: "conn \<Rightarrow> 'w \<Rightarrow> (Tx option \<times> error option) \<times> 'w" where
  "conn_Begin c w = ((None, Some (fmt_Errorf ''begin method not implemented'')), w)"

definition conn_ExecContext ::
  "(('x NamedValue \<Rightarrow> 'x NamedValue \<Rightarrow> bool) \<Rightarrow> 'x NamedValue list \<Rightarrow> 'x NamedValue list)
     \<Rightarrow> ('c, 'x, 'e, 'w) rpc \<Rightarrow> conn \<Rightarrow> 'c \<Rightarrow> string \<Rightarrow> 'x NamedValue list \<Rightarrow> 'w
     \<Rightarrow> (result option \<times> 'e option) \<times> 'w" where
  "conn_ExecContext srt callSqld c ctx query args w =
     (case callSqld ctx (url c) (jwt c) query (convertArgs srt args) w of
        ((_, Some err), w') \<Rightarrow> ((None, Some err), w')
      | ((_, None), w') \<Rightarrow> ((Some \<lparr>id' = 0, changes = 0\<rparr>, None), w'))"

definition conn_QueryContext ::
  "(('x NamedValue \<Rightarrow> 'x NamedValue \<Rightarrow> bool) \<Rightarrow> 'x NamedValue list \<Rightarrow> 'x NamedValue list)
     \<Rightarrow> ('c, 'x, 'e, 'w) rpc \<Rightarrow> conn \<Rightarrow> 'c \<Rightarrow> string \<Rightarrow> 'x NamedValue list \<Rightarrow> 'w
     \<Rightarrow> ('x rows option \<times> 'e option) \<times> 'w" where
  "conn_QueryContext srt callSqld c ctx query args w =
     (case callSqld ctx (url c) (jwt c) query (convertArgs srt args) w of
        ((_, Some err), w') \<Rightarrow> ((None, Some err), w')
      | ((rs, None), w') \<Rightarrow> ((Some \<lparr>result = rs, currentRowIdx = 0\<rparr>, None), w'))"

section \<open>Properties of the float operations\<close>

subsection \<open>Bit lengths\<close>

text \<open>A positive number of \<open>l\<close> bits lies between \<open>2 ^ (l - 1)\<close> and \<open>2 ^ l\<close>.\<close>

lemma bits_Len_bounds:
  "0 < n \<Longrightarrow> 2 ^ (bits_Len n - 1) \<le> n \<and> n < 2 ^ bits_Len n"
proof (induction n rule: bits_Len.induct)
  case (1 n)
  show ?case
  proof (cases "n div 2 = 0")
    case True
    then have "n = 1" using "1.prems" by presburger
    then show ?thesis by (simp add: bits_Len.simps)
  next
    case False
    then have pos: "0 < n div 2" using "1.prems" by presburger
    have len: "bits_Len n = Suc (bits_Len (n div 2))"
      using "1.prems" by (subst bits_Len.simps) simp
    have k: "0 < bits_Len (n div 2)"
      using pos by (subst bits_Len.simps) simp
    have IH: "2 ^ (bits_Len (n div 2) - 1) \<le> n div 2 \<and> n div 2 < 2 ^ bits_Len (n div 2)"
      using "1.IH" "1.prems" pos by simp
    have "(2::int) ^ bits_Len (n div 2) = 2 * 2 ^ (bits_Len (n div 2) - 1)"
      using k by (cases "bits_Len (n div 2)") simp_all
    then show ?thesis using IH len by simp presburger
  qed
qed

subsection \<open>The fields of a bit pattern\<close>

text \<open>
  The fields, as arithmetic on the unsigned value of the word: the fraction is the
  value modulo \<open>2 ^ 52\<close>, the exponent field the next 11 bits, the sign is set from
  \<open>2 ^ 63\<close> on, and the magnitude that orders the floats is the value modulo \<open>2 ^ 63\<close>.
\<close>

lemma uint_lt_64: "uint (x :: 64 word) < 2 ^ 64"
  using uint_bounded [of x] by simp

lemma f64_frac_uint: "f64_frac x = uint x mod 2 ^ 52"
proof -
  have "(0xFFFFFFFFFFFFF :: 64 word) = mask 52" by (simp add: mask_eq_exp_minus_1)
  then have "f64_frac x = uint (take_bit 52 x)"
    by (simp only: f64_frac_def take_bit_eq_mask)
  also have "\<dots> = take_bit 52 (uint x)"
    by (simp only: unsigned_take_bit_eq)
  finally show ?thesis
    by (simp only: take_bit_eq_mod)
qed

lemma f64_exp_uint: "f64_exp x = (uint x div 2 ^ 52) mod 2 ^ 11"
proof -
  have "(0x7FF :: 64 word) = mask 11" by (simp add: mask_eq_exp_minus_1)
  then have "f64_exp x = uint (take_bit 11 (drop_bit 52 x))"
    by (simp only: f64_exp_def take_bit_eq_mask)
  also have "\<dots> = take_bit 11 (drop_bit 52 (take_bit LENGTH(64) (uint x)))"
    by (simp only: unsigned_take_bit_eq unsigned_drop_bit_eq)
  also have "take_bit LENGTH(64) (uint x) = uint x"
    using uint_lt_64 [of x] by (simp add: take_bit_int_eq_self)
  finally show ?thesis
    by (simp only: take_bit_eq_mod drop_bit_eq_div)
qed

lemma f64_sign_uint: "f64_sign x \<longleftrightarrow> 2 ^ 63 \<le> uint x"
proof -
  have "f64_sign x \<longleftrightarrow> bit (uint x) 63"
    by (simp add: f64_sign_def bit_uint_iff)
  also have "\<dots> \<longleftrightarrow> odd (uint x div 2 ^ 63)"
    by (simp only: bit_iff_odd)
  also have "\<dots> \<longleftrightarrow> 2 ^ 63 \<le> uint x"
  proof (cases "2 ^ 63 \<le> uint x")
    case True
    have "uint x - 2 ^ 63 < 2 ^ 63"
      using uint_lt_64 [of x] by simp
    then have "(uint x - 2 ^ 63) div 2 ^ 63 = 0"
      using True by (intro div_pos_pos_trivial) simp_all
    then have "uint x div 2 ^ 63 = 1"
      using True by (subst div_pos_geq) simp_all
    then show ?thesis using True by simp
  next
    case False
    then have "uint x div 2 ^ 63 = 0"
      by (intro div_pos_pos_trivial) simp_all
    then show ?thesis using False by simp
  qed
  finally show ?thesis .
qed

lemma f64_magnitude_uint: "uint (x AND 0x7FFFFFFFFFFFFFFF :: 64 word) = uint x mod 2 ^ 63"
proof -
  have "(0x7FFFFFFFFFFFFFFF :: 64 word) = mask 63" by (simp add: mask_eq_exp_minus_1)
  then have "uint (x AND 0x7FFFFFFFFFFFFFFF) = uint (take_bit 63 x)"
    by (simp only: take_bit_eq_mask)
  also have "\<dots> = take_bit 63 (uint x)"
    by (simp only: unsigned_take_bit_eq)
  finally show ?thesis
    by (simp only: take_bit_eq_mod)
qed


text \<open>A word put together from a sign, an exponent field and a fraction has these fields.\<close>

lemma fields_mod:
  fixes e f :: int
  assumes "0 \<le> f" "f < 2 ^ 52"
  shows "(a * 2 ^ 52 + f) mod 2 ^ 52 = f" and "(a * 2 ^ 52 + f) div 2 ^ 52 = a"
  using assms by simp_all

lemma f64_fields:
  fixes e f :: int and s :: bool
  assumes e: "0 \<le> e" "e < 2 ^ 11" and f: "0 \<le> f" "f < 2 ^ 52"
  defines "x \<equiv> (word_of_int ((if s then 2 ^ 63 else 0) + e * 2 ^ 52 + f) :: 64 word)"
  shows "f64_exp x = e" and "f64_frac x = f" and "f64_sign x = s"
    and "uint (x AND 0x7FFFFFFFFFFFFFFF) = e * 2 ^ 52 + f"
proof -
  let ?b = "if s then 1 else 0 :: int"
  let ?W = "(?b * 2 ^ 11 + e) * 2 ^ 52 + f"
  have W: "(if s then 2 ^ 63 else 0) + e * 2 ^ 52 + f = ?W"
    by (simp add: algebra_simps)
  have low: "e * 2 ^ 52 + f < 2 ^ 63"
  proof -
    have "e * 2 ^ 52 \<le> (2 ^ 11 - 1) * 2 ^ 52" using e by (intro mult_right_mono) simp_all
    then show ?thesis using f by simp
  qed
  have nonneg: "0 \<le> e * 2 ^ 52 + f" using e f by simp
  have range: "0 \<le> ?W" "?W < 2 ^ 64"
    using low nonneg by (simp_all add: algebra_simps)
  have U: "uint x = ?W"
  proof (rule word_of_int_inverse)
    show "word_of_int ?W = x" unfolding x_def W ..
    show "0 \<le> ?W" by (rule range)
    show "?W < 2 ^ LENGTH(64)" using range(2) by simp
  qed
  show "f64_frac x = f"
    unfolding f64_frac_uint U using f by (rule fields_mod(1))
  have "?W div 2 ^ 52 = ?b * 2 ^ 11 + e"
    using f by (rule fields_mod(2))
  then show "f64_exp x = e"
    unfolding f64_exp_uint U using e by simp
  show "f64_sign x = s"
    unfolding f64_sign_uint U using low nonneg by (simp add: algebra_simps)
  define y where "y = e * 2 ^ 52 + f"
  have yb: "0 \<le> y" "y < 2 ^ 63"
    using low nonneg by (simp_all add: y_def)
  have Weq: "?W = ?b * 2 ^ 63 + y" by (simp add: y_def algebra_simps)
  have key: "(?b * 2 ^ 63 + y) mod 2 ^ 63 = y"
    using yb by simp
  have "uint (x AND 0x7FFFFFFFFFFFFFFF) = y"
    by (simp only: f64_magnitude_uint U Weq key)
  then show "uint (x AND 0x7FFFFFFFFFFFFFFF) = e * 2 ^ 52 + f"
    by (simp only: y_def)
qed


subsection \<open>The float made from a magnitude\<close>

lemma div_pow2_bounds:
  fixes r :: int
  assumes "2 ^ (k + n) \<le> r" "r < 2 ^ (Suc k + n)"
  shows "2 ^ k \<le> r div 2 ^ n" "r div 2 ^ n < 2 ^ Suc k"
proof -
  have "(2 ^ k * 2 ^ n) div 2 ^ n \<le> r div 2 ^ n"
    using assms(1) by (intro zdiv_mono1) (simp_all add: power_add)
  then show "2 ^ k \<le> r div 2 ^ n" by simp
  have less: "r < 2 ^ Suc k * 2 ^ n" using assms(2) by (simp only: power_add)
  show "r div 2 ^ n < 2 ^ Suc k"
  proof (rule ccontr)
    assume "\<not> r div 2 ^ n < 2 ^ Suc k"
    then have "2 ^ Suc k * 2 ^ n \<le> (r div 2 ^ n) * 2 ^ n"
      by (intro mult_right_mono) simp_all
    moreover have "(r div 2 ^ n) * 2 ^ n + r mod 2 ^ n = r"
      by (rule div_mult_mod_eq)
    moreover have "0 \<le> r mod 2 ^ n"
      by simp
    ultimately show False using less by linarith
  qed
qed

text \<open>
  For a magnitude below \<open>2 ^ 1074\<close> units, that is below 1, \<open>f64_make\<close> adds up an
  exponent field of at most 1022 and a fraction below \<open>2 ^ 52\<close>, which are both 0
  only for the magnitude 0.
\<close>

lemma f64_make_fields:
  fixes r :: int
  assumes "0 \<le> r" and "r * 2 ^ t < 2 ^ 1074"
  shows "\<exists>e f. 0 \<le> e \<and> e \<le> 1022 \<and> 0 \<le> f \<and> f < 2 ^ 52 \<and> (e * 2 ^ 52 + f = 0 \<longleftrightarrow> r = 0)
           \<and> f64_make s r t = word_of_int ((if s then 2 ^ 63 else 0) + e * 2 ^ 52 + f)"
proof (cases "r = 0")
  case True
  have "f64_make s r t = word_of_int ((if s then 2 ^ 63 else 0) + 0 * 2 ^ 52 + 0)"
    using True by (simp add: f64_make_def Let_def)
  then show ?thesis using True by (intro exI [of _ 0]) simp
next
  case False
  then have pos: "0 < r" using assms(1) by simp
  define l where "l = bits_Len r"
  have lo: "2 ^ (l - 1) \<le> r" and hi: "r < 2 ^ l"
    using bits_Len_bounds [OF pos] by (simp_all add: l_def)
  have l1: "1 \<le> l"
  proof (rule ccontr)
    assume "\<not> 1 \<le> l" then have "l = 0" by simp
    then show False using hi pos by simp
  qed
  have "(2::int) ^ (l - 1 + t) = 2 ^ (l - 1) * 2 ^ t" by (simp add: power_add)
  also have "\<dots> \<le> r * 2 ^ t" using lo by (intro mult_right_mono) simp_all
  also have "\<dots> < 2 ^ 1074" by (rule assms(2))
  finally have lt: "(2::int) ^ (l - 1 + t) < 2 ^ 1074" .
  have "l - 1 + t < 1074"
    by (rule power_less_imp_less_exp [OF _ lt]) simp
  then have b_le: "l + t \<le> 1074" using l1 by simp
  have make: "f64_make s r t = word_of_int ((if s then 2 ^ 63 else 0)
      + (if l + t \<le> 52 then 0 else int (l + t) - 52) * 2 ^ 52
      + (if l + t \<le> 52 then r * 2 ^ t
         else (if 53 \<le> l then r div 2 ^ (l - 53) else r * 2 ^ (53 - l)) - 2 ^ 52))"
    using False by (simp add: f64_make_def Let_def l_def)
  show ?thesis
  proof (cases "l + t \<le> 52")
    case True
    have "r * 2 ^ t < 2 ^ l * 2 ^ t" using hi by (intro mult_strict_right_mono) simp_all
    also have "\<dots> = 2 ^ (l + t)" by (simp add: power_add)
    also have "\<dots> \<le> (2::int) ^ 52" using True by (intro power_increasing) simp_all
    finally have f_hi: "r * 2 ^ t < 2 ^ 52" .
    have f_lo: "0 < r * 2 ^ t" using pos by simp
    have "f64_make s r t = word_of_int ((if s then 2 ^ 63 else 0) + 0 * 2 ^ 52 + r * 2 ^ t)"
      using make True by simp
    then show ?thesis
      using f_hi f_lo False by (intro exI [of _ 0] exI [of _ "r * 2 ^ t"]) simp
  next
    case False
    define norm where "norm = (if 53 \<le> l then r div 2 ^ (l - 53) else r * 2 ^ (53 - l))"
    have norm: "2 ^ 52 \<le> norm \<and> norm < 2 ^ 53"
    proof (cases "53 \<le> l")
      case True
      then have "l - 1 = 52 + (l - 53)" "l = Suc 52 + (l - 53)" by simp_all
      then have "2 ^ (52 + (l - 53)) \<le> r" "r < 2 ^ (Suc 52 + (l - 53))"
        using lo hi by simp_all
      then have "2 ^ 52 \<le> r div 2 ^ (l - 53) \<and> r div 2 ^ (l - 53) < 2 ^ Suc 52"
        using div_pow2_bounds [of 52 "l - 53" r] by blast
      then show ?thesis using True by (simp add: norm_def)
    next
      case False
      then have eq: "52 = (l - 1) + (53 - l)" "53 = l + (53 - l)" using l1 by simp_all
      have "(2::int) ^ 52 = 2 ^ (l - 1) * 2 ^ (53 - l)"
        by (subst eq(1)) (simp only: power_add)
      also have "\<dots> \<le> r * 2 ^ (53 - l)" using lo by (intro mult_right_mono) simp_all
      finally have a: "2 ^ 52 \<le> r * 2 ^ (53 - l)" .
      have "r * 2 ^ (53 - l) < 2 ^ l * 2 ^ (53 - l)"
        using hi by (intro mult_strict_right_mono) simp_all
      also have "\<dots> = (2::int) ^ 53"
        by (subst eq(2)) (simp only: power_add)
      finally have "r * 2 ^ (53 - l) < 2 ^ 53" .
      then show ?thesis using a False by (simp add: norm_def)
    qed
    have "f64_make s r t = word_of_int ((if s then 2 ^ 63 else 0) + (int (l + t) - 52) * 2 ^ 52 + (norm - 2 ^ 52))"
      using make False by (simp add: norm_def)
    moreover have "0 \<le> int (l + t) - 52" "int (l + t) - 52 \<le> 1022" "1 \<le> int (l + t) - 52"
      using False b_le by simp_all
    moreover have "0 \<le> norm - 2 ^ 52" "norm - 2 ^ 52 < 2 ^ 52"
      using norm by simp_all
    moreover have "(int (l + t) - 52) * 2 ^ 52 + (norm - 2 ^ 52) \<noteq> 0"
    proof -
      have "1 * 2 ^ 52 \<le> (int (l + t) - 52) * (2 ^ 52 :: int)"
        using False by (intro mult_right_mono) simp_all
      then show ?thesis using norm by simp
    qed
    ultimately show ?thesis
      using \<open>r \<noteq> 0\<close>
      by (intro exI [of _ "int (l + t) - 52"] exI [of _ "norm - 2 ^ 52"]) simp
  qed
qed


text \<open>So such a float is no NaN, has the sign it was given, and is zero only for the magnitude 0.\<close>

lemma f64_zero_facts: "\<not> IsNaN f64_zero" "f64_ord f64_zero = 0"
  by (simp_all add: f64_zero_def IsNaN_def f64_exp_def f64_ord_def f64_sign_def)

lemma f64_make_compare:
  fixes r :: int
  assumes "0 \<le> r" and "r * 2 ^ t < 2 ^ 1074"
  shows "f64_ge (f64_make s r t) f64_zero \<longleftrightarrow> \<not> s \<or> r = 0"
    and "f64_lt (f64_make s r t) f64_zero \<longleftrightarrow> s \<and> r \<noteq> 0"
proof -
  obtain e f where e: "0 \<le> e" "e \<le> 1022" and f: "0 \<le> f" "f < 2 ^ 52"
    and zero: "e * 2 ^ 52 + f = 0 \<longleftrightarrow> r = 0"
    and make: "f64_make s r t = word_of_int ((if s then 2 ^ 63 else 0) + e * 2 ^ 52 + f)"
    using f64_make_fields [OF assms, of s] by blast
  have e': "e < 2 ^ 11" using e(2) by simp
  note fields = f64_fields [OF e(1) e' f, of s, folded make]
  have nan: "\<not> IsNaN (f64_make s r t)"
    using e(2) by (simp add: IsNaN_def fields(1))
  have ord: "f64_ord (f64_make s r t) = (if s then - (e * 2 ^ 52 + f) else e * 2 ^ 52 + f)"
    by (simp only: f64_ord_def fields(3,4))
  have nonneg: "0 \<le> e * 2 ^ 52 + f" using e(1) f(1) by simp
  show "f64_ge (f64_make s r t) f64_zero \<longleftrightarrow> \<not> s \<or> r = 0"
    using nonneg zero by (auto simp: f64_ge_def nan f64_zero_facts ord)
  show "f64_lt (f64_make s r t) f64_zero \<longleftrightarrow> s \<and> r \<noteq> 0"
    using nonneg zero by (auto simp: f64_lt_def nan f64_zero_facts ord)
qed

subsection \<open>The remainder by 1 and its sign\<close>

lemma f64_one_facts:
  "f64_mant f64_one = 2 ^ 52" "f64_shift f64_one = 1022" "\<not> IsNaN f64_one" "\<not> IsInf f64_one"
  by (simp_all add: f64_one_def f64_mant_def f64_shift_def IsNaN_def IsInf_def f64_exp_def f64_frac_def)

lemma NaN_facts: "\<not> f64_ge NaN y" "\<not> f64_lt NaN y"
  by (simp_all add: f64_ge_def f64_lt_def IsNaN_def NaN_def f64_exp_def f64_frac_def)

lemma math_Mod_one:
  "math_Mod v f64_one =
     (if IsInf v \<or> IsNaN v then NaN
      else f64_make (f64_sign v)
             ((f64_mant v * 2 ^ (f64_shift v - min (f64_shift v) 1022))
                mod (2 ^ 52 * 2 ^ (1022 - min (f64_shift v) 1022)))
             (min (f64_shift v) 1022))"
  by (simp add: math_Mod_def f64_one_facts Let_def)

text \<open>
  \<^verbatim>\<open>math.Mod(v, 1) >= 0\<close> holds exactly for the finite \<open>v\<close> that have a clear sign bit or
  are whole numbers (\<open>-0\<close> and \<open>-3\<close> among them), and \<^verbatim>\<open>math.Mod(v, 1) < 0\<close> exactly for the
  finite negative \<open>v\<close> that are not whole. For a NaN and for the infinities neither holds.
\<close>

lemma Mod_one_compare:
  "f64_ge (math_Mod v f64_one) f64_zero
     \<longleftrightarrow> \<not> IsNaN v \<and> \<not> IsInf v \<and> (\<not> f64_sign v \<or> f64_whole v)"
  "f64_lt (math_Mod v f64_one) f64_zero
     \<longleftrightarrow> \<not> IsNaN v \<and> \<not> IsInf v \<and> f64_sign v \<and> \<not> f64_whole v"
proof -
  define t where "t = min (f64_shift v) 1022"
  define X where "X = f64_mant v * 2 ^ (f64_shift v - t)"
  define Y where "Y = (2 ^ 52 * 2 ^ (1022 - t) :: int)"
  have t: "t \<le> f64_shift v" "t \<le> 1022" by (simp_all add: t_def)
  have Ypos: "0 < Y" by (simp add: Y_def)
  have Yt: "Y * 2 ^ t = 2 ^ 1074"
  proof -
    have "Y * 2 ^ t = (2::int) ^ (52 + (1022 - t) + t)" by (simp only: Y_def power_add)
    also have "52 + (1022 - t) + t = 1074" using t(2) by simp
    finally show ?thesis .
  qed
  have Xt: "X * 2 ^ t = f64_mant v * 2 ^ f64_shift v"
  proof -
    have "X * 2 ^ t = f64_mant v * 2 ^ (f64_shift v - t + t)"
      by (simp only: X_def power_add mult.assoc)
    also have "f64_shift v - t + t = f64_shift v" using t(1) by simp
    finally show ?thesis .
  qed
  have R: "0 \<le> X mod Y" "X mod Y < Y" using Ypos by simp_all
  have "(X mod Y) * 2 ^ t < Y * 2 ^ t"
    using R(2) by (intro mult_strict_right_mono) simp_all
  then have bound: "(X mod Y) * 2 ^ t < 2 ^ 1074" by (simp only: Yt)
  have "(X * 2 ^ t) mod (Y * 2 ^ t) = (X mod Y) * 2 ^ t"
    by (rule mod_mult_mult2)
  then have "f64_whole v \<longleftrightarrow> (X mod Y) * 2 ^ t = 0"
    by (simp only: f64_whole_def Xt Yt)
  then have whole: "f64_whole v \<longleftrightarrow> X mod Y = 0" by simp
  have Mod: "math_Mod v f64_one = (if IsInf v \<or> IsNaN v then NaN else f64_make (f64_sign v) (X mod Y) t)"
    by (simp only: math_Mod_one X_def Y_def t_def)
  show "f64_ge (math_Mod v f64_one) f64_zero
     \<longleftrightarrow> \<not> IsNaN v \<and> \<not> IsInf v \<and> (\<not> f64_sign v \<or> f64_whole v)"
    using f64_make_compare(1) [OF R(1) bound, of "f64_sign v"]
    by (auto simp: Mod NaN_facts whole)
  show "f64_lt (math_Mod v f64_one) f64_zero
     \<longleftrightarrow> \<not> IsNaN v \<and> \<not> IsInf v \<and> f64_sign v \<and> \<not> f64_whole v"
    using f64_make_compare(2) [OF R(1) bound, of "f64_sign v"]
    by (auto simp: Mod NaN_facts whole)
qed

text \<open>
  What the type switch does with a \<^verbatim>\<open>float64\<close>, then: a finite value that is not negative
  or is whole becomes an \<^verbatim>\<open>int64\<close>; a negative value with a fraction, a NaN and an
  infinity stay as they are.
\<close>

lemma Next_switch_float64:
  "Next_switch oor (VFloat64 v) =
     (if \<not> IsNaN v \<and> \<not> IsInf v \<and> (\<not> f64_sign v \<or> f64_whole v)
      then VInt64 (int64_of_float64 oor v) else VFloat64 v)"
  by (simp only: Next_switch_def Value.case Mod_one_compare(1))

section \<open>Properties of the row cursor\<close>

subsection \<open>The loop over the cells\<close>

text \<open>
  When the destination slice is at least as long as the row, the loop started at
  \<open>idx\<close> overwrites the cells from \<open>idx\<close> up to the length of the row with the
  switched values and leaves the rest of the slice alone.
\<close>

lemma Next_loop_ok:
  "idx \<le> length row \<Longrightarrow> length row \<le> length dest \<Longrightarrow>
   Next_loop oor row idx (length row) dest =
     Inr (take idx dest @ map (Next_switch oor) (drop idx row) @ drop (length row) dest)"
proof (induction "length row - idx" arbitrary: idx dest)
  case 0
  then show ?case by (simp add: Next_loop.simps)
next
  case (Suc n)
  then have lt: "idx < length row" by simp
  have n: "n = length row - Suc idx" using Suc.hyps(2) by simp
  let ?d = "(dest[idx := row ! idx])[idx := Next_switch oor (row ! idx)]"
  have "Next_loop oor row idx (length row) dest = Next_loop oor row (Suc idx) (length row) ?d"
    using lt Suc.prems by (subst Next_loop.simps) (simp add: Let_def)
  also have "\<dots> = Inr (take (Suc idx) ?d @ map (Next_switch oor) (drop (Suc idx) row) @ drop (length row) ?d)"
    using Suc.hyps(1)[OF n, of ?d] lt Suc.prems by simp
  also have "take (Suc idx) ?d = take idx dest @ [Next_switch oor (row ! idx)]"
    using lt Suc.prems by (simp add: take_Suc_conv_app_nth)
  also have "drop (length row) ?d = drop (length row) dest"
    using lt by simp
  finally show ?case using lt by (simp add: Cons_nth_drop_Suc[symmetric])
qed

text \<open>A destination slice shorter than the row makes the loop panic.\<close>

lemma Next_loop_short:
  "idx \<le> length dest \<Longrightarrow> length dest < length row \<Longrightarrow>
   Next_loop oor row idx (length row) dest = Inl index_out_of_range"
proof (induction "length dest - idx" arbitrary: idx dest)
  case 0
  then show ?case by (subst Next_loop.simps) (simp add: Let_def)
next
  case (Suc n)
  then have lt: "idx < length dest" by simp
  let ?d = "(dest[idx := row ! idx])[idx := Next_switch oor (row ! idx)]"
  have "Next_loop oor row idx (length row) dest = Next_loop oor row (Suc idx) (length row) ?d"
    using lt Suc.prems by (subst Next_loop.simps) (simp add: Let_def)
  also have "\<dots> = Inl index_out_of_range"
    using Suc.hyps(1)[of ?d "Suc idx"] Suc.hyps(2) lt Suc.prems by simp
  finally show ?case .
qed

subsection \<open>One call of Next\<close>

lemma rows_Next_EOF:
  "result r = Some rs \<Longrightarrow> currentRowIdx r = int (length (Rows rs)) \<Longrightarrow>
   rows_Next oor r dest = Inr (Some io_EOF, r, dest)"
  by (simp add: rows_Next_def)

lemma rows_Next_ok:
  assumes "result r = Some rs" and "0 \<le> currentRowIdx r"
    and "currentRowIdx r < int (length (Rows rs))"
    and "length (Rows rs ! nat (currentRowIdx r)) \<le> length dest"
  shows "rows_Next oor r dest =
           Inr (None, r\<lparr>currentRowIdx := currentRowIdx r + 1\<rparr>,
                map (Next_switch oor) (Rows rs ! nat (currentRowIdx r))
                  @ drop (length (Rows rs ! nat (currentRowIdx r))) dest)"
  using assms Next_loop_ok [of 0 "Rows rs ! nat (currentRowIdx r)" dest oor]
  by (simp add: rows_Next_def Let_def)

lemma rows_Next_short:
  assumes "result r = Some rs" and "0 \<le> currentRowIdx r"
    and "currentRowIdx r < int (length (Rows rs))"
    and "length dest < length (Rows rs ! nat (currentRowIdx r))"
  shows "rows_Next oor r dest = Inl index_out_of_range"
  using assms Next_loop_short [of 0 dest "Rows rs ! nat (currentRowIdx r)" oor]
  by (simp add: rows_Next_def Let_def)

lemma f64_lt_not_ge: "f64_lt x y \<Longrightarrow> \<not> f64_ge x y"
  by (simp add: f64_lt_def f64_ge_def)

subsection \<open>Values of the examples\<close>

text \<open>
  The bit patterns of \<open>42.0\<close>, \<open>3.14\<close> and \<open>-0.5\<close> are \<open>0x4045000000000000\<close>,
  \<open>0x40091EB851EB851F\<close> and \<open>0xBFE0000000000000\<close>. Their remainders by 1 are \<open>+0\<close>,
  \<open>0.14000000000000012\<close> and \<open>-0.5\<close>.
\<close>

lemma math_Mod_42: "math_Mod 0x4045000000000000 f64_one = 0"
  by code_simp

lemma math_Mod_3_14: "math_Mod 0x40091EB851EB851F f64_one = 0x3FC1EB851EB851F0"
  by code_simp

lemma math_Mod_minus_half: "math_Mod 0xBFE0000000000000 f64_one = 0xBFE0000000000000"
  by code_simp

lemma int64_of_42: "int64_of_float64 oor 0x4045000000000000 = 42"
  by code_simp

lemma int64_of_3_14: "int64_of_float64 oor 0x40091EB851EB851F = 3"
  by code_simp

subsection \<open>Claims about Next\<close>

text \<open>
  C1. For a cell of the current row that holds a \<^verbatim>\<open>float64\<close> \<open>v\<close>, a call of \<^verbatim>\<open>Next\<close> with
  a destination slice at least as long as the row returns \<^verbatim>\<open>nil\<close>, and the cell of the
  destination at the same position holds \<^verbatim>\<open>int64(v)\<close> when \<^verbatim>\<open>math.Mod(v, 1) >= 0\<close> and
  holds \<open>v\<close> itself, still a \<^verbatim>\<open>float64\<close>, when \<^verbatim>\<open>math.Mod(v, 1) < 0\<close>.
\<close>

theorem rows_Next_float64:
  assumes "result r = Some rs" and "0 \<le> currentRowIdx r"
    and "currentRowIdx r < int (length (Rows rs))"
    and "length (Rows rs ! nat (currentRowIdx r)) \<le> length dest"
    and "idx < length (Rows rs ! nat (currentRowIdx r))"
    and "Rows rs ! nat (currentRowIdx r) ! idx = VFloat64 v"
  shows "\<exists>dest'. rows_Next oor r dest = Inr (None, r\<lparr>currentRowIdx := currentRowIdx r + 1\<rparr>, dest')
           \<and> (f64_ge (math_Mod v f64_one) f64_zero \<longrightarrow> dest' ! idx = VInt64 (int64_of_float64 oor v))
           \<and> (f64_lt (math_Mod v f64_one) f64_zero \<longrightarrow> dest' ! idx = VFloat64 v)"
proof -
  let ?row = "Rows rs ! nat (currentRowIdx r)"
  let ?dest' = "map (Next_switch oor) ?row @ drop (length ?row) dest"
  have run: "rows_Next oor r dest = Inr (None, r\<lparr>currentRowIdx := currentRowIdx r + 1\<rparr>, ?dest')"
    using assms(1-4) by (rule rows_Next_ok)
  have cell: "?dest' ! idx = Next_switch oor (VFloat64 v)"
    using assms(5,6) by (simp add: nth_append)
  have "f64_ge (math_Mod v f64_one) f64_zero \<longrightarrow> ?dest' ! idx = VInt64 (int64_of_float64 oor v)"
    by (simp add: cell Next_switch_def)
  moreover have "f64_lt (math_Mod v f64_one) f64_zero \<longrightarrow> ?dest' ! idx = VFloat64 v"
    using f64_lt_not_ge by (simp add: cell Next_switch_def)
  ultimately show ?thesis using run by blast
qed

text \<open>
  The theorem at the row \<open>[42.0, 3.14, -0.5]\<close>: the destination receives \<open>int64(42)\<close>,
  \<open>int64(3)\<close> and \<open>float64(-0.5)\<close>.
\<close>

theorem rows_Next_float64_witness:
  "f64_ge (math_Mod 0x4045000000000000 f64_one) f64_zero
   \<and> f64_ge (math_Mod 0x40091EB851EB851F f64_one) f64_zero
   \<and> f64_lt (math_Mod 0xBFE0000000000000 f64_one) f64_zero
   \<and> (\<exists>dest'. rows_Next (\<lambda>x. 0)
          \<lparr>result = Some \<lparr>Columns = [''a'', ''b'', ''c''],
                 Rows = [[VFloat64 0x4045000000000000, VFloat64 0x40091EB851EB851F,
                          VFloat64 0xBFE0000000000000 :: unit Value]]\<rparr>,
           currentRowIdx = 0\<rparr> [VNil, VNil, VNil]
        = Inr (None,
            \<lparr>result = Some \<lparr>Columns = [''a'', ''b'', ''c''],
                 Rows = [[VFloat64 0x4045000000000000, VFloat64 0x40091EB851EB851F,
                          VFloat64 0xBFE0000000000000]]\<rparr>,
             currentRowIdx = 1\<rparr>, dest')
        \<and> dest' ! 0 = VInt64 42 \<and> dest' ! 1 = VInt64 3 \<and> dest' ! 2 = VFloat64 0xBFE0000000000000)"
proof -
  let ?rs = "\<lparr>Columns = [''a'', ''b'', ''c''],
              Rows = [[VFloat64 0x4045000000000000, VFloat64 0x40091EB851EB851F,
                       VFloat64 0xBFE0000000000000 :: unit Value]]\<rparr>"
  let ?r = "\<lparr>result = Some ?rs, currentRowIdx = 0\<rparr>"
  let ?dest = "[VNil, VNil, VNil] :: unit Value list"
  have ge42: "f64_ge (math_Mod 0x4045000000000000 f64_one) f64_zero"
    unfolding math_Mod_42 by code_simp
  have ge314: "f64_ge (math_Mod 0x40091EB851EB851F f64_one) f64_zero"
    unfolding math_Mod_3_14 by code_simp
  have lthalf: "f64_lt (math_Mod 0xBFE0000000000000 f64_one) f64_zero"
    unfolding math_Mod_minus_half by code_simp
  obtain d0 where d0: "rows_Next (\<lambda>x. 0) ?r ?dest = Inr (None, ?r\<lparr>currentRowIdx := currentRowIdx ?r + 1\<rparr>, d0)"
      "d0 ! 0 = VInt64 42"
    using rows_Next_float64 [of ?r ?rs ?dest 0 "0x4045000000000000" "\<lambda>x. 0"] ge42
    by (auto simp: int64_of_42)
  obtain d1 where d1: "rows_Next (\<lambda>x. 0) ?r ?dest = Inr (None, ?r\<lparr>currentRowIdx := currentRowIdx ?r + 1\<rparr>, d1)"
      "d1 ! 1 = VInt64 3"
    using rows_Next_float64 [of ?r ?rs ?dest 1 "0x40091EB851EB851F" "\<lambda>x. 0"] ge314
    by (auto simp: int64_of_3_14)
  obtain d2 where d2: "rows_Next (\<lambda>x. 0) ?r ?dest = Inr (None, ?r\<lparr>currentRowIdx := currentRowIdx ?r + 1\<rparr>, d2)"
      "d2 ! 2 = VFloat64 0xBFE0000000000000"
    using rows_Next_float64 [of ?r ?rs ?dest 2 "0xBFE0000000000000" "\<lambda>x. 0"] lthalf
    by auto
  have "d1 = d0" and "d2 = d0"
    using d0(1) d1(1) d2(1) by simp_all
  then show ?thesis
    using ge42 ge314 lthalf d0 d1 d2 by simp
qed

text \<open>
  C2. For a cell of the current row that holds anything but a \<^verbatim>\<open>float64\<close> (an \<^verbatim>\<open>int64\<close>, a
  \<^verbatim>\<open>bool\<close>, a \<^verbatim>\<open>string\<close>, a \<^verbatim>\<open>[]byte\<close>, \<^verbatim>\<open>nil\<close>, or a value of any other type), the type
  switch is the identity, and a call of \<^verbatim>\<open>Next\<close> with a destination slice at least as
  long as the row returns \<^verbatim>\<open>nil\<close>, whatever the cells of the row hold, with that cell
  copied unchanged to the same position of the destination.
\<close>

theorem rows_Next_identity:
  assumes "result r = Some rs" and "0 \<le> currentRowIdx r"
    and "currentRowIdx r < int (length (Rows rs))"
    and "length (Rows rs ! nat (currentRowIdx r)) \<le> length dest"
    and "idx < length (Rows rs ! nat (currentRowIdx r))"
    and "\<forall>v. Rows rs ! nat (currentRowIdx r) ! idx \<noteq> VFloat64 v"
  shows "Next_switch oor (Rows rs ! nat (currentRowIdx r) ! idx) = Rows rs ! nat (currentRowIdx r) ! idx
         \<and> (\<exists>dest'. rows_Next oor r dest = Inr (None, r\<lparr>currentRowIdx := currentRowIdx r + 1\<rparr>, dest')
              \<and> dest' ! idx = Rows rs ! nat (currentRowIdx r) ! idx)"
proof -
  let ?row = "Rows rs ! nat (currentRowIdx r)"
  let ?dest' = "map (Next_switch oor) ?row @ drop (length ?row) dest"
  have run: "rows_Next oor r dest = Inr (None, r\<lparr>currentRowIdx := currentRowIdx r + 1\<rparr>, ?dest')"
    using assms(1-4) by (rule rows_Next_ok)
  have same: "Next_switch oor (?row ! idx) = ?row ! idx"
    using assms(6) by (cases "?row ! idx") (simp_all add: Next_switch_def)
  have "?dest' ! idx = ?row ! idx"
    using assms(5) same by (simp add: nth_append)
  then show ?thesis using run same by blast
qed

theorem rows_Next_identity_witness:
  "(\<forall>v. [VInt64 7, VBool True, VString ''foobar'', VBytes [0, 1, 2], VNil, VOther ()] ! 3 \<noteq> VFloat64 v)
   \<and> Next_switch (\<lambda>x. 0) (VBytes [0, 1, 2] :: unit Value) = VBytes [0, 1, 2]
   \<and> rows_Next (\<lambda>x. 0)
        \<lparr>result = Some \<lparr>Columns = [],
               Rows = [[VInt64 7, VBool True, VString ''foobar'', VBytes [0, 1, 2], VNil, VOther ()]]\<rparr>,
         currentRowIdx = 0\<rparr> (replicate 6 VNil)
      = Inr (None,
          \<lparr>result = Some \<lparr>Columns = [],
               Rows = [[VInt64 7, VBool True, VString ''foobar'', VBytes [0, 1, 2], VNil, VOther ()]]\<rparr>,
           currentRowIdx = 1\<rparr>,
          [VInt64 7, VBool True, VString ''foobar'', VBytes [0, 1, 2], VNil, VOther ()])"
proof -
  let ?row = "[VInt64 7, VBool True, VString ''foobar'', VBytes [0, 1, 2], VNil, VOther ()] :: unit Value list"
  let ?rs = "\<lparr>Columns = [], Rows = [?row]\<rparr>"
  let ?r = "\<lparr>result = Some ?rs, currentRowIdx = 0\<rparr>"
  have run: "rows_Next (\<lambda>x. 0) ?r (replicate 6 VNil)
      = Inr (None, ?r\<lparr>currentRowIdx := 1\<rparr>, ?row)"
    using rows_Next_ok [of ?r ?rs "replicate 6 VNil" "\<lambda>x. 0"]
    by (simp add: Next_switch_def)
  show ?thesis
    using rows_Next_identity [of ?r ?rs "replicate 6 VNil" 3 "\<lambda>x. 0"] run
    by simp
qed

subsection \<open>Successive calls of Next\<close>

text \<open>What a call that returns has done: either it met the end, or it advanced by one row.\<close>

lemma rows_Next_returns:
  assumes "rows_Next oor r dest = Inr (e, r', dest')"
  shows "\<exists>rs. result r = Some rs
           \<and> ((e = Some io_EOF \<and> r' = r \<and> dest' = dest \<and> currentRowIdx r = int (length (Rows rs)))
              \<or> (e = None \<and> r' = r\<lparr>currentRowIdx := currentRowIdx r + 1\<rparr>
                   \<and> 0 \<le> currentRowIdx r \<and> currentRowIdx r < int (length (Rows rs))))"
  using assms
  by (auto simp: rows_Next_def Let_def split: option.splits if_splits sum.splits)

lemma rows_Next_frame:
  assumes "rows_Next oor r dest = Inr (e, r', dest')"
  shows "r' = r\<lparr>currentRowIdx := currentRowIdx r'\<rparr>"
  using rows_Next_returns [OF assms] by auto

lemma Next_calls_frame:
  "Next_calls oor r ds = Inr (es, r') \<Longrightarrow> r' = r\<lparr>currentRowIdx := currentRowIdx r'\<rparr>"
proof (induction ds arbitrary: r es)
  case Nil
  then show ?case by simp
next
  case (Cons d ds)
  from Cons.prems obtain e r1 d1 es1
    where one: "rows_Next oor r d = Inr (e, r1, d1)"
      and more: "Next_calls oor r1 ds = Inr (es1, r')"
    by (auto split: sum.splits prod.splits)
  have "r1 = r\<lparr>currentRowIdx := currentRowIdx r1\<rparr>"
    using one by (rule rows_Next_frame)
  moreover have "r' = r1\<lparr>currentRowIdx := currentRowIdx r'\<rparr>"
    using more by (rule Cons.IH)
  ultimately show ?case
    by (metis rows.surjective rows.update_convs(2))
qed

text \<open>
  The index of a cursor that started at 0 over a result set stays between 0 and the
  number of rows, and the cursor keeps pointing to that result set.
\<close>

lemma Next_calls_index:
  "Next_calls oor r ds = Inr (es, r') \<Longrightarrow> result r = Some rs \<Longrightarrow>
   0 \<le> currentRowIdx r \<Longrightarrow> currentRowIdx r \<le> int (length (Rows rs)) \<Longrightarrow>
   result r' = Some rs \<and> 0 \<le> currentRowIdx r' \<and> currentRowIdx r' \<le> int (length (Rows rs))"
proof (induction ds arbitrary: r es)
  case Nil
  then show ?case by simp
next
  case (Cons d ds)
  from Cons.prems(1) obtain e r1 d1 es1
    where one: "rows_Next oor r d = Inr (e, r1, d1)"
      and more: "Next_calls oor r1 ds = Inr (es1, r')"
    by (auto split: sum.splits prod.splits)
  have "result r1 = Some rs \<and> 0 \<le> currentRowIdx r1 \<and> currentRowIdx r1 \<le> int (length (Rows rs))"
    using rows_Next_returns [OF one] Cons.prems(2-4) by auto
  then show ?case
    using Cons.IH [OF more] by simp
qed

text \<open>
  From row \<open>i\<close> on, with the \<open>k\<close>-th destination slice at least as long as the row
  it receives: the calls return \<^verbatim>\<open>nil\<close> until the rows are used up, then \<^verbatim>\<open>io.EOF\<close>.
\<close>

lemma Next_calls_run:
  "result r = Some rs \<Longrightarrow> currentRowIdx r = int i \<Longrightarrow> i \<le> length (Rows rs) \<Longrightarrow>
   (\<forall>k. k < length ds \<and> i + k < length (Rows rs) \<longrightarrow> length (Rows rs ! (i + k)) \<le> length (ds ! k)) \<Longrightarrow>
   Next_calls oor r ds =
     Inr (replicate (min (length ds) (length (Rows rs) - i)) None
            @ replicate (length ds - (length (Rows rs) - i)) (Some io_EOF),
          r\<lparr>currentRowIdx := int (min (length (Rows rs)) (i + length ds))\<rparr>)"
proof (induction ds arbitrary: r i)
  case Nil
  then show ?case by simp
next
  case (Cons d ds)
  show ?case
  proof (cases "i = length (Rows rs)")
    case True
    have one: "rows_Next oor r d = Inr (Some io_EOF, r, d)"
      using Cons.prems(1,2) True by (simp add: rows_Next_EOF)
    have "Next_calls oor r ds =
       Inr (replicate (min (length ds) (length (Rows rs) - i)) None
              @ replicate (length ds - (length (Rows rs) - i)) (Some io_EOF),
            r\<lparr>currentRowIdx := int (min (length (Rows rs)) (i + length ds))\<rparr>)"
      using Cons.prems(1-3) True by (intro Cons.IH) simp_all
    then show ?thesis
      using one True by simp
  next
    case False
    then have lt: "i < length (Rows rs)" using Cons.prems(3) by simp
    have fits: "length (Rows rs ! i) \<le> length d"
      using Cons.prems(4) [rule_format, of 0] lt by simp
    let ?advanced = "r\<lparr>currentRowIdx := currentRowIdx r + 1\<rparr>"
    obtain d1 where one: "rows_Next oor r d = Inr (None, ?advanced, d1)"
      using rows_Next_ok [of r rs d oor] Cons.prems(1,2) lt fits by simp
    have rest: "\<forall>k. k < length ds \<and> Suc i + k < length (Rows rs)
                  \<longrightarrow> length (Rows rs ! (Suc i + k)) \<le> length (ds ! k)"
    proof (intro allI impI)
      fix k assume "k < length ds \<and> Suc i + k < length (Rows rs)"
      then show "length (Rows rs ! (Suc i + k)) \<le> length (ds ! k)"
        using Cons.prems(4) [rule_format, of "Suc k"] by simp
    qed
    have "Next_calls oor ?advanced ds =
       Inr (replicate (min (length ds) (length (Rows rs) - Suc i)) None
              @ replicate (length ds - (length (Rows rs) - Suc i)) (Some io_EOF),
            ?advanced\<lparr>currentRowIdx := int (min (length (Rows rs)) (Suc i + length ds))\<rparr>)"
      using Cons.prems(1,2) lt rest by (intro Cons.IH) simp_all
    moreover have "min (Suc (length ds)) (length (Rows rs) - i) = Suc (min (length ds) (length (Rows rs) - Suc i))"
      using lt by simp
    moreover have "Suc (length ds) - (length (Rows rs) - i) = length ds - (length (Rows rs) - Suc i)"
      using lt by simp
    ultimately show ?thesis
      using one by simp
  qed
qed

text \<open>
  C4. A cursor at index 0 over a result set with \<open>R\<close> rows, called with destination
  slices of which each is at least as long as the row it receives: the first \<open>R\<close>
  calls return \<^verbatim>\<open>nil\<close> and every later call returns \<^verbatim>\<open>io.EOF\<close>; after \<open>n\<close> calls the index
  is the smaller of \<open>n\<close> and \<open>R\<close>; and a call at index \<open>R\<close> returns \<^verbatim>\<open>io.EOF\<close> leaving the
  cursor and the destination as they were, whatever the destination is.
\<close>

theorem Next_calls_until_EOF:
  assumes "\<forall>k. k < length ds \<and> k < length (Rows rs) \<longrightarrow> length (Rows rs ! k) \<le> length (ds ! k)"
  shows "Next_calls oor \<lparr>result = Some rs, currentRowIdx = 0\<rparr> ds =
           Inr (replicate (min (length ds) (length (Rows rs))) None
                  @ replicate (length ds - length (Rows rs)) (Some io_EOF),
                \<lparr>result = Some rs, currentRowIdx = int (min (length (Rows rs)) (length ds))\<rparr>)
         \<and> rows_Next oor \<lparr>result = Some rs, currentRowIdx = int (length (Rows rs))\<rparr> d =
             Inr (Some io_EOF, \<lparr>result = Some rs, currentRowIdx = int (length (Rows rs))\<rparr>, d)"
proof -
  let ?r = "\<lparr>result = Some rs, currentRowIdx = 0\<rparr>"
  have "Next_calls oor ?r ds =
     Inr (replicate (min (length ds) (length (Rows rs) - 0)) None
            @ replicate (length ds - (length (Rows rs) - 0)) (Some io_EOF),
          ?r\<lparr>currentRowIdx := int (min (length (Rows rs)) (0 + length ds))\<rparr>)"
    using assms by (intro Next_calls_run) simp_all
  then show ?thesis
    by (simp add: rows_Next_EOF)
qed

text \<open>
  The theorem at a result set of two rows and four calls: \<^verbatim>\<open>nil\<close>, \<^verbatim>\<open>nil\<close>, \<^verbatim>\<open>io.EOF\<close>,
  \<^verbatim>\<open>io.EOF\<close>, the index stopping at 2.
\<close>

theorem Next_calls_until_EOF_witness:
  "Next_calls (\<lambda>x. 0)
     \<lparr>result = Some \<lparr>Columns = [''a''], Rows = [[VInt64 1, VString ''x''], [VNil]]\<rparr>, currentRowIdx = 0\<rparr>
     [[VNil, VNil], [VNil], [], [] :: unit Value list]
   = Inr ([None, None, Some io_EOF, Some io_EOF],
          \<lparr>result = Some \<lparr>Columns = [''a''], Rows = [[VInt64 1, VString ''x''], [VNil]]\<rparr>, currentRowIdx = 2\<rparr>)"
proof -
  let ?rs = "\<lparr>Columns = [''a''], Rows = [[VInt64 1, VString ''x''], [VNil :: unit Value]]\<rparr>"
  let ?ds = "[[VNil, VNil], [VNil], [], [] :: unit Value list]"
  have fits: "\<forall>k. k < length ?ds \<and> k < length (Rows ?rs) \<longrightarrow> length (Rows ?rs ! k) \<le> length (?ds ! k)"
    by (simp add: less_Suc_eq nth_Cons')
  have four: "replicate 2 None @ replicate 2 (Some io_EOF) = [None, None, Some io_EOF, Some io_EOF]"
    by (simp add: numeral_2_eq_2)
  show ?thesis
    using Next_calls_until_EOF [OF fits, of "\<lambda>x. 0" "[]"] four by simp
qed

text \<open>
  C8. Whatever calls of \<^verbatim>\<open>Next\<close> a cursor over a result set has answered, \<^verbatim>\<open>Columns\<close>
  returns the column names of that result set, as it did before the calls: the cursor
  still points to the same result set, columns and rows, and differs from the cursor
  before the calls in its index only.
\<close>

theorem Columns_unchanged_by_Next:
  assumes "result r = Some rs" and "Next_calls oor r ds = Inr (es, r')"
  shows "rows_Columns r = Inr (Columns rs)
         \<and> rows_Columns r' = Inr (Columns rs)
         \<and> result r' = Some rs
         \<and> r' = r\<lparr>currentRowIdx := currentRowIdx r'\<rparr>"
proof -
  have frame: "r' = r\<lparr>currentRowIdx := currentRowIdx r'\<rparr>"
    using assms(2) by (rule Next_calls_frame)
  then have "result r' = result r"
    by (metis rows.select_convs(1) rows.surjective rows.update_convs(2))
  then show ?thesis
    using frame assms(1) by (simp add: rows_Columns_def)
qed

theorem Columns_unchanged_by_Next_witness:
  "Next_calls (\<lambda>x. 0)
     \<lparr>result = Some \<lparr>Columns = [''a'', ''b''], Rows = [[VInt64 1, VString ''x''], [VNil, VNil]]\<rparr>,
      currentRowIdx = 0\<rparr>
     [[VNil, VNil], [VNil, VNil], [] :: unit Value list]
   = Inr ([None, None, Some io_EOF],
          \<lparr>result = Some \<lparr>Columns = [''a'', ''b''], Rows = [[VInt64 1, VString ''x''], [VNil, VNil]]\<rparr>,
           currentRowIdx = 2\<rparr>)
   \<and> rows_Columns
        \<lparr>result = Some \<lparr>Columns = [''a'', ''b''], Rows = [[VInt64 1, VString ''x''], [VNil, VNil :: unit Value]]\<rparr>,
         currentRowIdx = 0\<rparr> = Inr [''a'', ''b'']
   \<and> rows_Columns
        \<lparr>result = Some \<lparr>Columns = [''a'', ''b''], Rows = [[VInt64 1, VString ''x''], [VNil, VNil :: unit Value]]\<rparr>,
         currentRowIdx = 2\<rparr> = Inr [''a'', ''b'']"
proof -
  let ?rs = "\<lparr>Columns = [''a'', ''b''], Rows = [[VInt64 1, VString ''x''], [VNil, VNil :: unit Value]]\<rparr>"
  let ?r = "\<lparr>result = Some ?rs, currentRowIdx = 0\<rparr>"
  let ?r' = "\<lparr>result = Some ?rs, currentRowIdx = 2\<rparr>"
  let ?ds = "[[VNil, VNil], [VNil, VNil], [] :: unit Value list]"
  have run: "Next_calls (\<lambda>x. 0) ?r ?ds = Inr ([None, None, Some io_EOF], ?r')"
    by (simp add: rows_Next_def Let_def Next_loop.simps Next_switch_def)
  show ?thesis
    using run Columns_unchanged_by_Next [of ?r ?rs "\<lambda>x. 0" ?ds "[None, None, Some io_EOF]" ?r']
    by simp
qed

text \<open>
  C10. Take any state \<open>r\<close> that a cursor created at index 0 over a result set reaches
  by calls of \<^verbatim>\<open>Next\<close>. A call of \<^verbatim>\<open>Next\<close> in that state panics exactly when a row is left
  and the destination slice is shorter than that row. And when each destination slice
  of a sequence of calls is at least as long as the row it receives, for every row
  that is left, none of the calls panics.
\<close>

theorem rows_Next_panics_iff:
  assumes "Next_calls oor \<lparr>result = Some rs, currentRowIdx = 0\<rparr> ds0 = Inr (es0, r)"
  shows "((\<exists>p. rows_Next oor r dest = Inl p)
            \<longleftrightarrow> currentRowIdx r < int (length (Rows rs))
                \<and> length dest < length (Rows rs ! nat (currentRowIdx r)))
         \<and> ((\<forall>k. k < length ds \<and> nat (currentRowIdx r) + k < length (Rows rs)
                  \<longrightarrow> length (Rows rs ! (nat (currentRowIdx r) + k)) \<le> length (ds ! k))
              \<longrightarrow> (\<exists>es r'. Next_calls oor r ds = Inr (es, r')))"
proof -
  have inv: "result r = Some rs \<and> 0 \<le> currentRowIdx r \<and> currentRowIdx r \<le> int (length (Rows rs))"
    using Next_calls_index [OF assms, of rs] by simp
  have one: "(\<exists>p. rows_Next oor r dest = Inl p)
            \<longleftrightarrow> currentRowIdx r < int (length (Rows rs))
                \<and> length dest < length (Rows rs ! nat (currentRowIdx r))"
  proof (cases "currentRowIdx r = int (length (Rows rs))")
    case True
    then show ?thesis using inv rows_Next_EOF [of r rs oor dest] by simp
  next
    case False
    then have lt: "currentRowIdx r < int (length (Rows rs))" using inv by simp
    show ?thesis
    proof (cases "length dest < length (Rows rs ! nat (currentRowIdx r))")
      case True
      then show ?thesis using inv lt rows_Next_short [of r rs dest oor] by simp
    next
      case False
      then show ?thesis using inv lt rows_Next_ok [of r rs dest oor] by simp
    qed
  qed
  have many: "\<exists>es r'. Next_calls oor r ds = Inr (es, r')"
    if "\<forall>k. k < length ds \<and> nat (currentRowIdx r) + k < length (Rows rs)
            \<longrightarrow> length (Rows rs ! (nat (currentRowIdx r) + k)) \<le> length (ds ! k)"
  proof -
    have eq: "currentRowIdx r = int (nat (currentRowIdx r))" using inv by simp
    have le: "nat (currentRowIdx r) \<le> length (Rows rs)" using inv by linarith
    show ?thesis
      using Next_calls_run [OF _ eq le that, of oor] inv by blast
  qed
  show ?thesis using one many by blast
qed

text \<open>
  The theorem at a cursor that has read the first of two rows: an empty destination
  makes the next call panic, and the calls with slices \<open>[nil]\<close> and \<open>[]\<close> return.
\<close>

theorem rows_Next_panics_iff_witness:
  "Next_calls (\<lambda>x. 0)
     \<lparr>result = Some \<lparr>Columns = [''a'', ''b''], Rows = [[VInt64 1, VString ''x''], [VNil]]\<rparr>,
      currentRowIdx = 0\<rparr> [[VNil, VNil :: unit Value]]
   = Inr ([None],
          \<lparr>result = Some \<lparr>Columns = [''a'', ''b''], Rows = [[VInt64 1, VString ''x''], [VNil]]\<rparr>,
           currentRowIdx = 1\<rparr>)
   \<and> (\<exists>p. rows_Next (\<lambda>x. 0)
          \<lparr>result = Some \<lparr>Columns = [''a'', ''b''], Rows = [[VInt64 1, VString ''x''], [VNil :: unit Value]]\<rparr>,
           currentRowIdx = 1\<rparr> [] = Inl p)
   \<and> (\<exists>es r'. Next_calls (\<lambda>x. 0)
          \<lparr>result = Some \<lparr>Columns = [''a'', ''b''], Rows = [[VInt64 1, VString ''x''], [VNil :: unit Value]]\<rparr>,
           currentRowIdx = 1\<rparr> [[VNil], []] = Inr (es, r'))"
proof -
  let ?rs = "\<lparr>Columns = [''a'', ''b''], Rows = [[VInt64 1, VString ''x''], [VNil :: unit Value]]\<rparr>"
  let ?start = "\<lparr>result = Some ?rs, currentRowIdx = 0\<rparr>"
  let ?r = "\<lparr>result = Some ?rs, currentRowIdx = 1\<rparr>"
  have run: "Next_calls (\<lambda>x. 0) ?start [[VNil, VNil]] = Inr ([None], ?r)"
    by (simp add: rows_Next_def Let_def Next_loop.simps Next_switch_def)
  have fits: "\<forall>k. k < length [[VNil], [] :: unit Value list] \<and> nat (currentRowIdx ?r) + k < length (Rows ?rs)
      \<longrightarrow> length (Rows ?rs ! (nat (currentRowIdx ?r) + k)) \<le> length ([[VNil], [] :: unit Value list] ! k)"
    by simp
  have short: "currentRowIdx ?r < int (length (Rows ?rs)) \<and> length ([] :: unit Value list) < length (Rows ?rs ! nat (currentRowIdx ?r))"
    by simp
  note at_r = rows_Next_panics_iff [OF run, of "[]" "[[VNil], []]"]
  have panics: "\<exists>p. rows_Next (\<lambda>x. 0) ?r [] = Inl p"
    using at_r [THEN conjunct1] short by (rule iffD2)
  have returns: "\<exists>es r'. Next_calls (\<lambda>x. 0) ?r [[VNil], []] = Inr (es, r')"
    using at_r [THEN conjunct2] fits by (rule mp)
  show ?thesis
    using run panics returns by (intro conjI)
qed

section \<open>Properties of the parameter normalisation\<close>

subsection \<open>The loop over the sorted arguments\<close>

text \<open>
  The loop appends the value of every argument and the name of every named one. A
  slice it never appends to stays as it was, \<^verbatim>\<open>nil\<close> included.
\<close>

lemma convertArgs_loop_eq:
  "convertArgs_loop sortedArgs names values =
     ((if filter (\<lambda>a. Name a \<noteq> []) sortedArgs = [] then names
       else Some (slice_elems names @ map Name (filter (\<lambda>a. Name a \<noteq> []) sortedArgs))),
      (if sortedArgs = [] then values
       else Some (slice_elems values @ map Value sortedArgs)))"
proof (induction sortedArgs arbitrary: names "values")
  case Nil
  then show ?case by simp
next
  case (Cons a sortedArgs)
  show ?case
    by (auto simp: Cons.IH go_append_def slice_elems_def split: option.splits)
qed

subsection \<open>Sorting by distinct ordinals\<close>

text \<open>
  When the ordinals are pairwise distinct, there is one arrangement of the arguments
  by ascending ordinal, so every sort that keeps the contract returns it.
\<close>

lemma filter_same_key:
  assumes "distinct (map f xs)" and "k \<in> set xs"
  shows "filter (\<lambda>x. f k = f x) xs = [k]"
  using assms
proof (induction xs)
  case Nil
  then show ?case by simp
next
  case (Cons x xs)
  show ?case
  proof (cases "x = k")
    case True
    then have "\<forall>y\<in>set xs. f k \<noteq> f y" using Cons.prems(1) by auto
    then have "filter (\<lambda>x. f k = f x) xs = []" by (simp add: filter_empty_conv)
    then show ?thesis using True by simp
  next
    case False
    then have "k \<in> set xs" using Cons.prems(2) by simp
    moreover have "f k \<noteq> f x"
    proof
      assume "f k = f x"
      then have "f x \<in> f ` set xs" using \<open>k \<in> set xs\<close> by (metis imageI)
      then show False using Cons.prems(1) by simp
    qed
    ultimately show ?thesis using Cons.IH Cons.prems(1) by simp
  qed
qed

lemma sort_Slice_unique:
  assumes contract: "sort_Slice_contract srt (\<lambda>a b. f a < f b)"
    and dist: "distinct (map f xs)"
  shows "srt (\<lambda>a b. f a < f b) xs = sort_key f (xs :: 'a list)"
proof -
  let ?ys = "srt (\<lambda>a b. f a < f b) xs"
  have perm: "mset ?ys = mset xs"
    using contract by (simp add: sort_Slice_contract_def)
  have "sorted_wrt (\<lambda>a b. \<not> f b < f a) ?ys"
    using contract by (simp add: sort_Slice_contract_def)
  then have "sorted_wrt (\<lambda>a b. f a \<le> f b) ?ys"
    by (rule sorted_wrt_mono_rel [rotated]) auto
  then have srt: "sorted (map f ?ys)"
    by (simp add: sorted_wrt_map)
  have "mset (map f ?ys) = mset (map f xs)"
    using perm by (metis mset_map)
  then have dist': "distinct (map f ?ys)"
    using dist by (metis mset_eq_imp_distinct_iff)
  have same: "filter (\<lambda>x. f k = f x) ?ys = filter (\<lambda>x. f k = f x) xs" if "k \<in> set ?ys" for k
  proof -
    have "k \<in> set xs" using that perm by (metis mset_eq_setD)
    then show ?thesis
      using that dist dist' by (simp add: filter_same_key)
  qed
  show ?thesis
    using properties_for_sort_key [OF perm same srt] by simp
qed

lemma sort_key_strict:
  assumes "distinct (map f xs)"
  shows "sorted_wrt (<) (map f (sort_key f xs))"
proof -
  have "distinct (map f (sort_key f xs))"
    using assms by (metis distinct_map distinct_sort set_sort)
  then show ?thesis
    by (simp add: strict_sorted_iff)
qed

subsection \<open>The insertion sort keeps the contract\<close>

lemma mset_insert_less: "mset (insert_less less' x ys) = add_mset x (mset ys)"
  by (induction ys) simp_all

lemma set_insert_less: "set (insert_less less' x ys) = insert x (set ys)"
  by (induction ys) auto

lemma sorted_insert_less:
  "sorted_wrt (\<lambda>a b. f a \<le> f b) ys \<Longrightarrow>
   sorted_wrt (\<lambda>a b. f a \<le> f b) (insert_less (\<lambda>a b. f a < f b) x (ys :: 'a list))"
  for f :: "'a \<Rightarrow> 'b::linorder"
  by (induction ys) (auto simp: set_insert_less)

lemma insertion_sort_foldl:
  "mset (foldl (\<lambda>p x. insert_less (\<lambda>a b. f a < f b) x p) acc xs) = mset acc + mset xs
   \<and> (sorted_wrt (\<lambda>a b. f a \<le> f b) acc
        \<longrightarrow> sorted_wrt (\<lambda>a b. f a \<le> f b) (foldl (\<lambda>p x. insert_less (\<lambda>a b. f a < f b) x p) acc xs))"
  for f :: "'a \<Rightarrow> 'b::linorder"
  by (induction xs arbitrary: acc) (simp_all add: mset_insert_less sorted_insert_less)

lemma insertion_sort_contract:
  "sort_Slice_contract insertion_sort (\<lambda>a b. f a < f b)"
  for f :: "'a \<Rightarrow> 'b::linorder"
  using insertion_sort_foldl [of f "[]"]
  by (simp add: sort_Slice_contract_def insertion_sort_def not_less)

subsection \<open>Claims about convertArgs\<close>

text \<open>
  C3. For arguments with pairwise distinct ordinals, in any order, and any sort that
  keeps the contract of \<^verbatim>\<open>sort.Slice\<close>: the values of the result are the values of the
  arguments arranged by ascending ordinal, and the names of the result are the
  non-empty names of the arguments in that same arrangement, with nothing in the
  place of an empty name. The arrangement, \<open>sort_key Ordinal args\<close>, holds the same
  arguments and its ordinals ascend strictly.
\<close>

theorem convertArgs_by_ordinal:
  assumes "sort_Slice_contract srt (\<lambda>a b. Ordinal a < Ordinal b)"
    and "distinct (map Ordinal args)"
  shows "slice_elems (Values (convertArgs srt args)) = map Value (sort_key Ordinal args)
         \<and> slice_elems (Names (convertArgs srt args))
             = map Name (filter (\<lambda>a. Name a \<noteq> []) (sort_key Ordinal args))
         \<and> mset (sort_key Ordinal args) = mset args
         \<and> sorted_wrt (<) (map Ordinal (sort_key Ordinal args))"
proof (cases "args = []")
  case True
  then show ?thesis by (simp add: convertArgs_def slice_elems_def)
next
  case False
  have sorted_eq: "srt (\<lambda>a b. Ordinal a < Ordinal b) args = sort_key Ordinal args"
    using assms by (rule sort_Slice_unique)
  have "sort_key Ordinal args \<noteq> []"
    using False by (metis length_0_conv length_sort)
  then have "convertArgs srt args =
      \<lparr>Names = (if filter (\<lambda>a. Name a \<noteq> []) (sort_key Ordinal args) = [] then None
                else Some (map Name (filter (\<lambda>a. Name a \<noteq> []) (sort_key Ordinal args)))),
       Values = Some (map Value (sort_key Ordinal args))\<rparr>"
    using False
    by (simp add: convertArgs_def Let_def sorted_eq convertArgs_loop_eq slice_elems_def)
  then show ?thesis
    using sort_key_strict [OF assms(2)] by (simp add: slice_elems_def)
qed

text \<open>
  The theorem at the arguments \<open>{ordinal 1, value "x"}\<close>, \<open>{ordinal 0, name "a", value 5}\<close>,
  sorted by insertion: the values are \<open>[5, "x"]\<close> and the names are \<open>["a"]\<close>.
\<close>

theorem convertArgs_by_ordinal_witness:
  "distinct (map Ordinal
      [\<lparr>Name = '''', Ordinal = 1, Value = VString ''x''\<rparr>,
       \<lparr>Name = ''a'', Ordinal = 0, Value = VInt64 5 :: unit Value\<rparr>])
   \<and> slice_elems (Values (convertArgs insertion_sort
        [\<lparr>Name = '''', Ordinal = 1, Value = VString ''x''\<rparr>,
         \<lparr>Name = ''a'', Ordinal = 0, Value = VInt64 5 :: unit Value\<rparr>]))
      = [VInt64 5, VString ''x'']
   \<and> slice_elems (Names (convertArgs insertion_sort
        [\<lparr>Name = '''', Ordinal = 1, Value = VString ''x''\<rparr>,
         \<lparr>Name = ''a'', Ordinal = 0, Value = VInt64 5 :: unit Value\<rparr>]))
      = [''a'']"
proof -
  let ?args = "[\<lparr>Name = '''', Ordinal = 1, Value = VString ''x''\<rparr>,
                \<lparr>Name = ''a'', Ordinal = 0, Value = VInt64 5 :: unit Value\<rparr>]"
  have dist: "distinct (map Ordinal ?args)" by simp
  have arranged: "sort_key Ordinal ?args =
      [\<lparr>Name = ''a'', Ordinal = 0, Value = VInt64 5\<rparr>, \<lparr>Name = '''', Ordinal = 1, Value = VString ''x''\<rparr>]"
    by simp
  show ?thesis
    using convertArgs_by_ordinal [OF insertion_sort_contract dist]
    unfolding arranged by simp
qed

text \<open>
  C9. No arguments give a \<^verbatim>\<open>params\<close> whose \<^verbatim>\<open>Names\<close> and \<^verbatim>\<open>Values\<close> are both \<^verbatim>\<open>nil\<close>, which
  is not a \<^verbatim>\<open>params\<close> of two empty slices. One or more arguments, with a sort
  that keeps the contract of \<^verbatim>\<open>sort.Slice\<close>, give a \<^verbatim>\<open>Values\<close> that is not \<^verbatim>\<open>nil\<close> and has
  one element for each argument.
\<close>

theorem convertArgs_nil_or_present:
  assumes "sort_Slice_contract srt (\<lambda>a b. Ordinal a < Ordinal b)"
  shows "convertArgs srt [] = \<lparr>Names = None, Values = None\<rparr>
         \<and> convertArgs srt [] \<noteq> \<lparr>Names = Some [], Values = Some []\<rparr>
         \<and> (args \<noteq> [] \<longrightarrow>
               (\<exists>vs. Values (convertArgs srt args) = Some vs \<and> length vs = length args))"
proof -
  let ?sorted = "srt (\<lambda>a b. Ordinal a < Ordinal b) args"
  have "mset ?sorted = mset args"
    using assms by (simp add: sort_Slice_contract_def)
  then have len: "length ?sorted = length args"
    by (metis size_mset)
  have "Values (convertArgs srt args) = Some (map Value ?sorted)" if "args \<noteq> []"
  proof -
    have "?sorted \<noteq> []" using that len by auto
    then show ?thesis
      using that by (simp add: convertArgs_def Let_def convertArgs_loop_eq slice_elems_def)
  qed
  then show ?thesis
    using len by (simp add: convertArgs_def)
qed

theorem convertArgs_nil_or_present_witness:
  "convertArgs insertion_sort ([] :: unit NamedValue list) = \<lparr>Names = None, Values = None\<rparr>
   \<and> Values (convertArgs insertion_sort
        [\<lparr>Name = '''', Ordinal = 2, Value = VNil\<rparr>, \<lparr>Name = '''', Ordinal = 1, Value = VBool True :: unit Value\<rparr>])
      = Some [VBool True, VNil]
   \<and> Names (convertArgs insertion_sort
        [\<lparr>Name = '''', Ordinal = 2, Value = VNil\<rparr>, \<lparr>Name = '''', Ordinal = 1, Value = VBool True :: unit Value\<rparr>])
      = None"
proof -
  let ?args = "[\<lparr>Name = '''', Ordinal = 2, Value = VNil\<rparr>,
                \<lparr>Name = '''', Ordinal = 1, Value = VBool True :: unit Value\<rparr>]"
  have "?args \<noteq> []" by simp
  then obtain vs where "Values (convertArgs insertion_sort ?args) = Some vs" and "length vs = length ?args"
    using convertArgs_nil_or_present [OF insertion_sort_contract, of ?args] by blast
  moreover have "convertArgs insertion_sort ?args = \<lparr>Names = None, Values = Some [VBool True, VNil]\<rparr>"
    by (simp add: convertArgs_def Let_def insertion_sort_def go_append_def)
  ultimately show ?thesis
    using convertArgs_nil_or_present [OF insertion_sort_contract, of ?args] by simp
qed

section \<open>Properties of the connection\<close>

text \<open>
  C5. \<^verbatim>\<open>Prepare\<close> and \<^verbatim>\<open>Begin\<close> return no statement and no transaction, together with the
  error made by \<^verbatim>\<open>fmt.Errorf\<close> from the text "prepare method not implemented" or "begin
  method not implemented", for every connection, query and world, and leave the world
  as it was: neither makes an RPC.
\<close>

theorem Prepare_Begin_not_implemented:
  "conn_Prepare c query w = ((None, Some (fmt_Errorf ''prepare method not implemented'')), w)
   \<and> conn_Begin c w = ((None, Some (fmt_Errorf ''begin method not implemented'')), w)"
  by (simp add: conn_Prepare_def conn_Begin_def)

text \<open>
  C6. When the RPC returns an error, \<^verbatim>\<open>ExecContext\<close> and \<^verbatim>\<open>QueryContext\<close> return that
  very error and no result, whatever result set came with it. When the RPC returns no
  error, \<^verbatim>\<open>ExecContext\<close> returns a result and \<^verbatim>\<open>QueryContext\<close> returns a cursor at index
  0 on the result set of the RPC, both without an error. Either way the world is the
  one the RPC left.
\<close>

theorem Exec_Query_error_or_result:
  "(callSqld ctx (url c) (jwt c) query (convertArgs srt args) w = ((rs, Some err), w')
      \<longrightarrow> conn_ExecContext srt callSqld c ctx query args w = ((None, Some err), w')
        \<and> conn_QueryContext srt callSqld c ctx query args w = ((None, Some err), w'))
   \<and> (callSqld ctx (url c) (jwt c) query (convertArgs srt args) w = ((rs, None), w')
      \<longrightarrow> (\<exists>res. conn_ExecContext srt callSqld c ctx query args w = ((Some res, None), w'))
        \<and> conn_QueryContext srt callSqld c ctx query args w
            = ((Some \<lparr>result = rs, currentRowIdx = 0\<rparr>, None), w'))"
  by (simp add: conn_ExecContext_def conn_QueryContext_def)

text \<open>
  The theorem at an RPC that fails with the error \<open>''context canceled''\<close> and counts the
  call, and at one that answers with an empty result set.
\<close>

theorem Exec_Query_error_or_result_witness:
  "conn_ExecContext insertion_sort (\<lambda>ctx u j q p w. ((None, Some ''context canceled''), Suc w))
       (Connect ''http://localhost:8080'' ''token'') () ''SELECT 1'' ([] :: unit NamedValue list) (0 :: nat)
     = ((None, Some ''context canceled''), 1)
   \<and> conn_QueryContext insertion_sort (\<lambda>ctx u j q p w. ((None, Some ''context canceled''), Suc w))
       (Connect ''http://localhost:8080'' ''token'') () ''SELECT 1'' ([] :: unit NamedValue list) (0 :: nat)
     = ((None, Some ''context canceled''), 1)
   \<and> (\<exists>res. conn_ExecContext insertion_sort
         (\<lambda>ctx u j q p w. ((Some \<lparr>Columns = [], Rows = []\<rparr>, None :: string option), Suc w))
         (Connect ''http://localhost:8080'' ''token'') () ''SELECT 1'' ([] :: unit NamedValue list) (0 :: nat)
       = ((Some res, None), 1))
   \<and> conn_QueryContext insertion_sort
         (\<lambda>ctx u j q p w. ((Some \<lparr>Columns = [], Rows = []\<rparr>, None :: string option), Suc w))
         (Connect ''http://localhost:8080'' ''token'') () ''SELECT 1'' ([] :: unit NamedValue list) (0 :: nat)
       = ((Some \<lparr>result = Some \<lparr>Columns = [], Rows = []\<rparr>, currentRowIdx = 0\<rparr>, None), 1)"
proof -
  let ?c = "Connect ''http://localhost:8080'' ''token''"
  let ?fails = "\<lambda>(ctx :: unit) (u :: string) (j :: string) (q :: string) (p :: unit params) (w :: nat).
                  ((None :: unit resultSet option, Some ''context canceled''), Suc w)"
  let ?answers = "\<lambda>(ctx :: unit) (u :: string) (j :: string) (q :: string) (p :: unit params) (w :: nat).
                  ((Some \<lparr>Columns = [], Rows = []\<rparr> :: unit resultSet option, None :: string option), Suc w)"
  note failing = Exec_Query_error_or_result
    [of ?fails "()" ?c "''SELECT 1''" insertion_sort "[]" 0 None "''context canceled''" 1,
     THEN conjunct1]
  note answering = Exec_Query_error_or_result
    [of ?answers "()" ?c "''SELECT 1''" insertion_sort "[]" 0 "Some \<lparr>Columns = [], Rows = []\<rparr>" _ 1,
     THEN conjunct2]
  show ?thesis
    using failing answering by simp
qed

text \<open>
  C7. When the RPC returns no error, \<^verbatim>\<open>ExecContext\<close> returns a result whose
  \<^verbatim>\<open>LastInsertId\<close> and \<^verbatim>\<open>RowsAffected\<close> both return 0 and no error, whatever the query,
  the arguments and the result set of the RPC are.
\<close>

theorem ExecContext_result_zero:
  assumes "callSqld ctx (url c) (jwt c) query (convertArgs srt args) w = ((rs, None), w')"
  shows "\<exists>res. conn_ExecContext srt callSqld c ctx query args w = ((Some res, None), w')
           \<and> result_LastInsertId res = (0, None)
           \<and> result_RowsAffected res = (0, None)"
  using assms
  by (simp add: conn_ExecContext_def result_LastInsertId_def result_RowsAffected_def)

text \<open>
  The theorem at an RPC that answers an insert with a result set of one row.
\<close>

theorem ExecContext_result_zero_witness:
  "\<exists>res. conn_ExecContext insertion_sort
       (\<lambda>ctx u j q p w. ((Some \<lparr>Columns = [''id''], Rows = [[VInt64 7]]\<rparr>, None :: string option), Suc w))
       (Connect ''http://localhost:8080'' ''token'') () ''INSERT INTO t (a, b) VALUES (?, ?)''
       [\<lparr>Name = '''', Ordinal = 1, Value = VInt64 1\<rparr>,
        \<lparr>Name = '''', Ordinal = 2, Value = VString ''1'' :: unit Value\<rparr>] (0 :: nat)
     = ((Some res, None), 1)
     \<and> result_LastInsertId res = (0, None)
     \<and> result_RowsAffected res = (0, None)"
proof -
  let ?answers = "\<lambda>(ctx :: unit) (u :: string) (j :: string) (q :: string) (p :: unit params) (w :: nat).
                  ((Some \<lparr>Columns = [''id''], Rows = [[VInt64 7]]\<rparr> :: unit resultSet option,
                    None :: string option), Suc w)"
  have rpc: "?answers () u j q p 0 = ((Some \<lparr>Columns = [''id''], Rows = [[VInt64 7]]\<rparr>, None), 1)"
    for u j q :: string and p :: "unit params"
    by simp
  show ?thesis
    using ExecContext_result_zero [of ?answers, OF rpc] by simp
qed

end
